theory Spec2Isabelle
  imports Complex_Main
begin

text \<open>
  A model of \<open>index.js\<close>, the server of the chat overlay: the handler of the chat client's
  \<open>message\<close> notification, the Socket.IO \<open>connection\<close> handler, the font check made at
  start-up, and the handler of \<open>GET /fonts/:font\<close>. The functions of JavaScript and of
  Node's \<open>path\<close> and \<open>fs\<close> modules that these call are modelled first. Logging is left out.
\<close>

section \<open>JavaScript strings and numbers\<close>

text \<open>
  A string is a \<^typ>\<open>string\<close>, a list of 8-bit characters that stand for the code units
  U+0000 to U+00FF; code units beyond U+00FF are outside the model. On these,
  \<open>String.prototype.toLowerCase\<close> maps \<open>A\<close>..\<open>Z\<close> and the capital letters U+00C0 to U+00DE
  (all but the multiplication sign U+00D7) to the letter 32 places further, and leaves
  every other character alone.
\<close>

definition lower_char :: "char \<Rightarrow> char" where
  "lower_char c =
     (let n = (of_char c :: nat)
      in if (65 \<le> n \<and> n \<le> 90) \<or> (192 \<le> n \<and> n \<le> 222 \<and> n \<noteq> 215)
         then char_of (n + 32) else c)"

definition toLowerCase :: "string \<Rightarrow> string" where
  "toLowerCase s = map lower_char s"

text \<open>
  \<open>String.prototype.split(sep)\<close> for a one-character separator: the pieces between the
  occurrences of the separator, in order; a string without the separator (the empty string
  too) gives a one-element array.
\<close>

fun split :: "char \<Rightarrow> string \<Rightarrow> string list" where
  "split sep [] = [[]]"
| "split sep (c # cs) =
     (if c = sep then [] # split sep cs
      else (case split sep cs of
              [] \<Rightarrow> [[c]]
            | p # ps \<Rightarrow> (c # p) # ps))"

text \<open>
  A JavaScript number is an IEEE 754 double: NaN, an infinity, the negative zero, or a
  finite value, kept as the rational number that the double stands for (\<open>Finite 0\<close> is the
  positive zero).
\<close>

datatype js_number = NaN | Infinity | NegInfinity | NegZero | Finite rat

datatype js_value = Undefined | JSNumber js_number

text \<open>
  The double nearest to a rational \<open>q\<close>, ties to the even significand: with
  \<open>2 ^ e \<le> \<bar>q\<bar> < 2 ^ (e + 1)\<close> (and \<open>e\<close> no less than \<open>- 1022\<close>, where the subnormal numbers
  begin), \<open>\<bar>q\<bar>\<close> is rounded to a multiple of \<open>2 ^ (e - 52)\<close>; what reaches \<open>2 ^ 1024\<close> is
  an infinity, and the sign is put back last. (ECMAScript lets an engine cut a literal of more than 20 significant digits
  before rounding; the engines round the exact value, as here.)
\<close>

fun bit_length :: "nat \<Rightarrow> nat" where
  "bit_length n = (if n = 0 then 0 else Suc (bit_length (n div 2)))"

declare bit_length.simps [simp del]

definition scale2 :: "rat \<Rightarrow> int \<Rightarrow> rat" where
  "scale2 x k = (if 0 \<le> k then x * 2 ^ nat k else x / 2 ^ nat (- k))"

definition floor_log2 :: "rat \<Rightarrow> int" where
  "floor_log2 q =
     (let (n, d) = quotient_of q;
          k = int (bit_length (nat n)) - int (bit_length (nat d))
      in if scale2 1 k \<le> q then k else k - 1)"

definition round_half_even :: "rat \<Rightarrow> int" where
  "round_half_even x =
     (let f = \<lfloor>x\<rfloor>; r = x - of_int f
      in if r < 1 / 2 then f
         else if 1 / 2 < r then f + 1
         else if even f then f else f + 1)"

definition negate :: "js_number \<Rightarrow> js_number" where
  "negate x =
     (case x of
        NaN \<Rightarrow> NaN
      | Infinity \<Rightarrow> NegInfinity
      | NegInfinity \<Rightarrow> Infinity
      | NegZero \<Rightarrow> Finite 0
      | Finite v \<Rightarrow> if v = 0 then NegZero else Finite (- v))"

definition to_double :: "rat \<Rightarrow> js_number" where
  "to_double q =
     (if q = 0 then Finite 0
      else (let a = \<bar>q\<bar>;
                e = max (floor_log2 a) (- 1022);
                m = round_half_even (scale2 a (52 - e));
                rounded = (if 1024 \<le> e \<or> (e = 1023 \<and> m = 2 ^ 53) then Infinity
                           else Finite (scale2 (of_int m) (e - 52)))
            in if q < 0 then negate rounded else rounded))"

definition is_digit :: "char \<Rightarrow> bool" where
  "is_digit c = (let n = (of_char c :: nat) in 48 \<le> n \<and> n \<le> 57)"

definition is_hex_digit :: "char \<Rightarrow> bool" where
  "is_hex_digit c =
     (let n = (of_char c :: nat) in
        (48 \<le> n \<and> n \<le> 57) \<or> (65 \<le> n \<and> n \<le> 70) \<or> (97 \<le> n \<and> n \<le> 102))"

definition is_octal_digit :: "char \<Rightarrow> bool" where
  "is_octal_digit c = (let n = (of_char c :: nat) in 48 \<le> n \<and> n \<le> 55)"

definition is_binary_digit :: "char \<Rightarrow> bool" where
  "is_binary_digit c = (c = CHR ''0'' \<or> c = CHR ''1'')"

text \<open>
  \<open>StrWhiteSpaceChar\<close> up to U+00FF: TAB, LF, VT, FF, CR, SP and the no-break space
  U+00A0.
\<close>

definition is_whitespace :: "char \<Rightarrow> bool" where
  "is_whitespace c =
     (let n = (of_char c :: nat) in (9 \<le> n \<and> n \<le> 13) \<or> n = 32 \<or> n = 160)"

definition digit_value :: "char \<Rightarrow> nat" where
  "digit_value c =
     (let n = (of_char c :: nat) in
        if 97 \<le> n then n - 87 else if 65 \<le> n then n - 55 else n - 48)"

definition digits_value :: "nat \<Rightarrow> string \<Rightarrow> nat" where
  "digits_value base ds = foldl (\<lambda>acc c. acc * base + digit_value c) 0 ds"

definition trim :: "string \<Rightarrow> string" where
  "trim s = rev (dropWhile is_whitespace (rev (dropWhile is_whitespace s)))"

text \<open>
  \<open>ExponentPart_opt\<close> at the end of a decimal literal: nothing, or \<open>e\<close>/\<open>E\<close>, an optional
  sign, and at least one digit, with nothing after. \<open>None\<close> is a parse failure.
\<close>

definition exponent_part :: "string \<Rightarrow> int option" where
  "exponent_part s =
     (case s of
        [] \<Rightarrow> Some 0
      | c # r \<Rightarrow>
          if c = CHR ''e'' \<or> c = CHR ''E'' then
            (case r of
               [] \<Rightarrow> None
             | d # r' \<Rightarrow>
                 if d = CHR ''+'' then
                   (if r' \<noteq> [] \<and> list_all is_digit r' then Some (int (digits_value 10 r')) else None)
                 else if d = CHR ''-'' then
                   (if r' \<noteq> [] \<and> list_all is_digit r' then Some (- int (digits_value 10 r')) else None)
                 else
                   (if list_all is_digit r then Some (int (digits_value 10 r)) else None))
          else None)"

definition scale10 :: "rat \<Rightarrow> int \<Rightarrow> rat" where
  "scale10 m e = (if 0 \<le> e then m * 10 ^ nat e else m / 10 ^ nat (- e))"

text \<open>
  \<open>StrUnsignedDecimalLiteral\<close> without the \<open>Infinity\<close> alternative: digits, an optional
  point with optional digits, an optional exponent; or a point followed by digits. The
  result is the mathematical value of the literal, before it is rounded.
\<close>

definition unsigned_decimal :: "string \<Rightarrow> rat option" where
  "unsigned_decimal s =
     (let ip = takeWhile is_digit s;
          r1 = dropWhile is_digit s;
          has_point = (r1 \<noteq> [] \<and> hd r1 = CHR ''.'');
          fp = (if has_point then takeWhile is_digit (tl r1) else []);
          r2 = (if has_point then dropWhile is_digit (tl r1) else r1)
      in if ip = [] \<and> fp = [] then None
         else (case exponent_part r2 of
                 None \<Rightarrow> None
               | Some e \<Rightarrow>
                   Some (scale10 (of_nat (digits_value 10 (ip @ fp))) (e - int (length fp)))))"

definition str_decimal_literal :: "string \<Rightarrow> js_number" where
  "str_decimal_literal s =
     (case s of
        [] \<Rightarrow> NaN
      | c # r \<Rightarrow>
          if c = CHR ''+'' then
            (if r = ''Infinity'' then Infinity
             else (case unsigned_decimal r of None \<Rightarrow> NaN | Some v \<Rightarrow> to_double v))
          else if c = CHR ''-'' then
            (if r = ''Infinity'' then NegInfinity
             else (case unsigned_decimal r of None \<Rightarrow> NaN | Some v \<Rightarrow> negate (to_double v)))
          else
            (if s = ''Infinity'' then Infinity
             else (case unsigned_decimal s of None \<Rightarrow> NaN | Some v \<Rightarrow> to_double v)))"

definition non_decimal_literal :: "string \<Rightarrow> js_number option" where
  "non_decimal_literal s =
     (case s of
        z # p # ds \<Rightarrow>
          if z \<noteq> CHR ''0'' then None
          else if p = CHR ''x'' \<or> p = CHR ''X'' then
            Some (if ds \<noteq> [] \<and> list_all is_hex_digit ds
                  then to_double (of_nat (digits_value 16 ds)) else NaN)
          else if p = CHR ''o'' \<or> p = CHR ''O'' then
            Some (if ds \<noteq> [] \<and> list_all is_octal_digit ds
                  then to_double (of_nat (digits_value 8 ds)) else NaN)
          else if p = CHR ''b'' \<or> p = CHR ''B'' then
            Some (if ds \<noteq> [] \<and> list_all is_binary_digit ds
                  then to_double (of_nat (digits_value 2 ds)) else NaN)
          else None
      | _ \<Rightarrow> None)"

text \<open>
  \<open>Number(string)\<close>, the \<open>StringToNumber\<close> conversion of ECMAScript: white space is trimmed,
  the empty string is \<open>0\<close>, a binary, octal or hexadecimal literal or a signed decimal literal
  is its value rounded to a double, and everything else is \<open>NaN\<close>.
\<close>

definition Number :: "string \<Rightarrow> js_number" where
  "Number s =
     (let t = trim s in
        if t = [] then Finite 0
        else (case non_decimal_literal t of
                Some v \<Rightarrow> v
              | None \<Rightarrow> str_decimal_literal t))"

text \<open>
  The numeric strings, after the grammar of ECMAScript rather than after the conversion:
  a \<open>StrNumericLiteral\<close> is \<open>0x\<close>, \<open>0o\<close> or \<open>0b\<close> (in either case) followed by digits of that
  base, or an optional sign followed by \<open>Infinity\<close> or by a mantissa and an optional
  exponent part. A mantissa is made of decimal digits and at most one point, with at least
  one digit; an exponent part is \<open>e\<close> or \<open>E\<close> followed by an optionally signed run of digits.
  A blank string is empty or made of white space only.
\<close>

definition blank :: "string \<Rightarrow> bool" where
  "blank s = list_all is_whitespace s"

definition decimal_digits :: "string \<Rightarrow> bool" where
  "decimal_digits s = (s \<noteq> [] \<and> list_all is_digit s)"

definition is_sign :: "char \<Rightarrow> bool" where
  "is_sign c = (c = CHR ''+'' \<or> c = CHR ''-'')"

definition exponent_indicator :: "char \<Rightarrow> bool" where
  "exponent_indicator c = (c = CHR ''e'' \<or> c = CHR ''E'')"

definition signed_integer :: "string \<Rightarrow> bool" where
  "signed_integer s =
     (decimal_digits s \<or> (s \<noteq> [] \<and> is_sign (hd s) \<and> decimal_digits (tl s)))"

definition mantissa :: "string \<Rightarrow> bool" where
  "mantissa m =
     (list_all (\<lambda>c. is_digit c \<or> c = CHR ''.'') m
      \<and> length (filter (\<lambda>c. c = CHR ''.'') m) \<le> 1
      \<and> list_ex is_digit m)"

definition str_unsigned_decimal_literal :: "string \<Rightarrow> bool" where
  "str_unsigned_decimal_literal s =
     (s = ''Infinity''
      \<or> (mantissa (takeWhile (\<lambda>c. \<not> exponent_indicator c) s)
         \<and> (dropWhile (\<lambda>c. \<not> exponent_indicator c) s = []
            \<or> signed_integer (tl (dropWhile (\<lambda>c. \<not> exponent_indicator c) s)))))"

definition prefixed_digits :: "string \<Rightarrow> (char \<Rightarrow> bool) \<Rightarrow> string \<Rightarrow> bool" where
  "prefixed_digits marks digit s =
     (2 < length s \<and> hd s = CHR ''0'' \<and> s ! 1 \<in> set marks \<and> list_all digit (drop 2 s))"

definition str_numeric_literal :: "string \<Rightarrow> bool" where
  "str_numeric_literal s =
     (str_unsigned_decimal_literal s
      \<or> (s \<noteq> [] \<and> is_sign (hd s) \<and> str_unsigned_decimal_literal (tl s))
      \<or> prefixed_digits ''xX'' is_hex_digit s
      \<or> prefixed_digits ''oO'' is_octal_digit s
      \<or> prefixed_digits ''bB'' is_binary_digit s)"

section \<open>Chat event normalisation\<close>

text \<open>
  The tags object handed over by the chat client, restricted to the three properties the
  handler reads. An absent (or \<open>null\<close>) property is \<open>None\<close>. The \<open>emotes\<close> object is an
  association list whose order is the order in which \<open>for ... in\<close> enumerates its keys.
\<close>

record tags =
  display_name :: "string option"
  tag_color :: "string option"
  tag_emotes :: "(string \<times> string list) list option"

record EmoteSpan =
  span_id :: string
  span_start :: js_value
  span_end :: js_value

record ChatEvent =
  username :: string
  message :: string
  color :: string
  emotes :: "EmoteSpan list"

text \<open>\<open>a || b\<close> on a string property: \<open>undefined\<close>, \<open>null\<close> and \<open>''\<close> are falsy.\<close>

definition or_default :: "string option \<Rightarrow> string \<Rightarrow> string" where
  "or_default v d = (case v of None \<Rightarrow> d | Some s \<Rightarrow> if s = [] then d else s)"

text \<open>
  \<open>const [start, end] = position.split('-').map(Number)\<close>: the first two elements of
  the mapped array; a missing element destructures to \<open>undefined\<close>.
\<close>

definition element :: "js_number list \<Rightarrow> nat \<Rightarrow> js_value" where
  "element xs i = (if i < length xs then JSNumber (xs ! i) else Undefined)"

definition position_span :: "string \<Rightarrow> string \<Rightarrow> EmoteSpan" where
  "position_span emoteId position =
     (let parts = map Number (split (CHR ''-'') position)
      in \<lparr>span_id = emoteId, span_start = element parts 0, span_end = element parts 1\<rparr>)"

text \<open>The inner \<open>forEach\<close>: every position pushes one span onto the \<open>emotes\<close> array.\<close>

fun forEach_position :: "string \<Rightarrow> string list \<Rightarrow> EmoteSpan list \<Rightarrow> EmoteSpan list" where
  "forEach_position emoteId [] acc = acc"
| "forEach_position emoteId (position # rest) acc =
     forEach_position emoteId rest (acc @ [position_span emoteId position])"

text \<open>The outer \<open>for (const emoteId in tags.emotes)\<close> loop.\<close>

fun for_in_emotes :: "(string \<times> string list) list \<Rightarrow> EmoteSpan list \<Rightarrow> EmoteSpan list" where
  "for_in_emotes [] acc = acc"
| "for_in_emotes ((emoteId, positions) # rest) acc =
     for_in_emotes rest (forEach_position emoteId positions acc)"

definition extract_emotes :: "(string \<times> string list) list option \<Rightarrow> EmoteSpan list" where
  "extract_emotes e = (case e of None \<Rightarrow> [] | Some m \<Rightarrow> for_in_emotes m [])"

text \<open>
  The \<open>client.on('message', (chan, tags, message, self) => ...)\<close> handler. Its result is
  the list of \<open>io.emit('chatMessage', ...)\<close> calls it makes, in order.
\<close>

definition client_on_message :: "string \<Rightarrow> tags \<Rightarrow> string \<Rightarrow> bool \<Rightarrow> ChatEvent list" where
  "client_on_message chan t msg self =
     (let emotes = extract_emotes (tag_emotes t)
      in [\<lparr>username = or_default (display_name t) ''Anonymous'',
           message = msg,
           color = or_default (tag_color t) ''#ffffff'',
           emotes = emotes\<rparr>])"

section \<open>The file system and the path module\<close>

text \<open>
  A file system is a tree: a directory lists its entries by name, in the order in which
  \<open>readdirSync\<close> returns them. Names are compared exactly on a case-sensitive file system
  and up to letter case on a case-insensitive one. Paths are absolute and normalised, kept
  as the list of their segments (POSIX paths; symbolic links are not modelled).
\<close>

datatype fs_node = File | Dir "(string \<times> fs_node) list"

type_synonym path = "string list"

record host =
  fs_root :: fs_node
  case_sensitive :: bool
  execDir :: path  \<comment> \<open>\<open>path.dirname(process.execPath)\<close>\<close>

datatype js_error = ENOENT | ENOTDIR

definition same_name :: "bool \<Rightarrow> string \<Rightarrow> string \<Rightarrow> bool" where
  "same_name cs a b = (if cs then a = b else toLowerCase a = toLowerCase b)"

fun lookup :: "bool \<Rightarrow> fs_node \<Rightarrow> path \<Rightarrow> fs_node option" where
  "lookup cs n [] = Some n"
| "lookup cs File (seg # segs) = None"
| "lookup cs (Dir entries) (seg # segs) =
     (case find (\<lambda>entry. same_name cs (fst entry) seg) entries of
        None \<Rightarrow> None
      | Some entry \<Rightarrow> lookup cs (snd entry) segs)"

text \<open>A path with a NUL character in it names nothing: the \<open>fs\<close> functions reject it.\<close>

definition node_at :: "host \<Rightarrow> path \<Rightarrow> fs_node option" where
  "node_at h p =
     (if list_ex (\<lambda>seg. CHR 0x00 \<in> set seg) p then None
      else lookup (case_sensitive h) (fs_root h) p)"

definition existsSync :: "host \<Rightarrow> path \<Rightarrow> bool" where
  "existsSync h p = (node_at h p \<noteq> None)"

definition readdirSync :: "host \<Rightarrow> path \<Rightarrow> js_error + string list" where
  "readdirSync h p =
     (case node_at h p of
        None \<Rightarrow> Inl ENOENT
      | Some File \<Rightarrow> Inl ENOTDIR
      | Some (Dir entries) \<Rightarrow> Inr (map fst entries))"

text \<open>
  The entry of directory \<open>d\<close> that the file system opens for the name \<open>n\<close>: the stored name
  of the file that a stream on \<open>d/n\<close> reads.
\<close>

definition stored_name :: "host \<Rightarrow> path \<Rightarrow> string \<Rightarrow> string option" where
  "stored_name h d n =
     (case readdirSync h d of
        Inl _ \<Rightarrow> None
      | Inr names \<Rightarrow> find (\<lambda>f. same_name (case_sensitive h) f n) names)"

text \<open>
  \<open>path.join(base, rel)\<close> for a normalised absolute \<open>base\<close>: the segments of \<open>rel\<close> are
  applied to \<open>base\<close> in turn; an empty segment and \<open>.\<close> change nothing, \<open>..\<close> drops the last
  segment (and stays at the root).
\<close>

definition push_segment :: "path \<Rightarrow> string \<Rightarrow> path" where
  "push_segment p seg =
     (if seg = [] \<or> seg = ''.'' then p
      else if seg = ''..'' then butlast p
      else p @ [seg])"

definition path_join :: "path \<Rightarrow> string \<Rightarrow> path" where
  "path_join base rel = foldl push_segment base (split (CHR ''/'') rel)"

text \<open>
  The last portion of a path string: trailing slashes are ignored, and the portion starts
  after the last slash before them.
\<close>

definition trailing_slashes :: "string \<Rightarrow> string" where
  "trailing_slashes s = takeWhile (\<lambda>c. c = CHR ''/'') (rev s)"

definition last_portion :: "string \<Rightarrow> string" where
  "last_portion s =
     rev (takeWhile (\<lambda>c. c \<noteq> CHR ''/'') (dropWhile (\<lambda>c. c = CHR ''/'') (rev s)))"

text \<open>
  \<open>path.extname(p)\<close>: from the last \<open>.\<close> of the last portion to its end; empty when the
  portion has no \<open>.\<close>, when its only \<open>.\<close> is its first character, and when it is \<open>..\<close>.
\<close>

definition extname :: "string \<Rightarrow> string" where
  "extname p =
     (let b = last_portion p;
          after_dot = rev (takeWhile (\<lambda>c. c \<noteq> CHR ''.'') (rev b))
      in if CHR ''.'' \<notin> set b then []
         else if length b = Suc (length after_dot) then []
         else if b = ''..'' then []
         else CHR ''.'' # after_dot)"

definition ends_with :: "string \<Rightarrow> string \<Rightarrow> bool" where
  "ends_with s suffix =
     (length suffix \<le> length s \<and> drop (length s - length suffix) s = suffix)"

text \<open>
  \<open>path.basename(p, suffix)\<close>: the last portion of \<open>p\<close>, without \<open>suffix\<close> when the portion
  ends with it and is longer than it. The comparison is exact (case-sensitive). Two corner
  cases of Node's scan are kept: \<open>p = suffix\<close> gives the empty string, and a portion that
  is a proper tail of \<open>suffix\<close> comes back with the trailing slashes of \<open>p\<close>.
\<close>

definition basename :: "string \<Rightarrow> string \<Rightarrow> string" where
  "basename p suffix =
     (let b = last_portion p in
        if suffix = [] \<or> length p < length suffix then b
        else if suffix = p then []
        else if length b < length suffix \<and> ends_with suffix b then b @ trailing_slashes p
        else if length suffix < length b \<and> ends_with b suffix
          then take (length b - length suffix) b
        else b)"

definition path_extname :: "path \<Rightarrow> string" where
  "path_extname p = (if p = [] then [] else extname (last p))"

section \<open>Fonts\<close>

definition fontsDir :: "host \<Rightarrow> path" where
  "fontsDir h = path_join (execDir h) ''fonts''"

definition extensions :: "string list" where
  "extensions = [''.ttf'', ''.otf'', ''.woff'', ''.woff2'']"

text \<open>The test \<open>/\.(ttf|otf|woff|woff2)$/i.test(f)\<close>.\<close>

definition has_font_extension :: "string \<Rightarrow> bool" where
  "has_font_extension f =
     list_ex (\<lambda>e. ends_with (toLowerCase f) e) [''.ttf'', ''.otf'', ''.woff'', ''.woff2'']"

datatype fs_call = ExistsSync path | ReaddirSync path

text \<open>
  \<open>validateFont(font, type)\<close> of the start-up check. The result comes with the calls made
  to \<open>fs\<close>, in order; an exception thrown by \<open>readdirSync\<close> leaves the function.
\<close>

definition validateFont :: "host \<Rightarrow> string \<Rightarrow> fs_call list \<times> (js_error + bool)" where
  "validateFont h font =
     (if toLowerCase font = ''arial'' then ([], Inr True)
      else if \<not> existsSync h (fontsDir h) then ([ExistsSync (fontsDir h)], Inr False)
      else (case readdirSync h (fontsDir h) of
              Inl err \<Rightarrow> ([ExistsSync (fontsDir h), ReaddirSync (fontsDir h)], Inl err)
            | Inr files \<Rightarrow>
                (let fontFiles = filter has_font_extension files;
                     fontNames = map (\<lambda>f. basename f (extname f)) fontFiles;
                     found = list_ex (\<lambda>name. toLowerCase name = toLowerCase font) fontNames
                 in ([ExistsSync (fontsDir h), ReaddirSync (fontsDir h)], Inr found))))"

text \<open>
  The loop of the \<open>/fonts/:font\<close> handler over the extensions: \<open>Inr (Some fontPath)\<close> when
  an extension is found, \<open>Inr None\<close> when \<open>fontPath\<close> is still \<open>null\<close> after the loop, and
  \<open>Inl\<close> when \<open>readdirSync\<close> throws.
\<close>

fun try_extensions :: "host \<Rightarrow> string \<Rightarrow> string list \<Rightarrow> js_error + path option" where
  "try_extensions h fontName [] = Inr None"
| "try_extensions h fontName (e # es) =
     (let candidate = path_join (fontsDir h) (fontName @ e) in
        if existsSync h candidate then Inr (Some candidate)
        else (case (if existsSync h (fontsDir h) then readdirSync h (fontsDir h) else Inr []) of
                Inl err \<Rightarrow> Inl err
              | Inr files \<Rightarrow>
                  (case find (\<lambda>f. toLowerCase f = toLowerCase (fontName @ e)) files of
                     Some match \<Rightarrow> Inr (Some (path_join (fontsDir h) match))
                   | None \<Rightarrow> try_extensions h fontName es)))"

text \<open>The first lines of the handler: an extension of the list is stripped.\<close>

definition strip_extension :: "string \<Rightarrow> string" where
  "strip_extension fontName =
     (let ext = toLowerCase (extname fontName)
      in if ext \<in> set [''.ttf'', ''.otf'', ''.woff'', ''.woff2''] then basename fontName ext
         else fontName)"

definition mimeMap :: "string \<Rightarrow> string option" where
  "mimeMap = map_of [(''.ttf'', ''font/ttf''), (''.otf'', ''font/otf''),
                     (''.woff'', ''font/woff''), (''.woff2'', ''font/woff2'')]"

text \<open>
  What the handler does with the response: it sets the content type and pipes a read
  stream on \<open>fontPath\<close> into it (what the stream then reads is not modelled), or it sends
  the status 404 with a body, or an exception leaves it.
\<close>

datatype response =
    FontStream path string  \<comment> \<open>\<open>fontPath\<close> and the content type\<close>
  | NotFound string         \<comment> \<open>\<open>res.status(404).send(...)\<close>\<close>
  | Uncaught js_error

text \<open>The \<open>app.get('/fonts/:font', ...)\<close> handler, applied to \<open>req.params.font\<close>.\<close>

definition get_fonts :: "host \<Rightarrow> string \<Rightarrow> response" where
  "get_fonts h font =
     (let fontName = strip_extension font in
        case try_extensions h fontName extensions of
          Inl err \<Rightarrow> Uncaught err
        | Inr (Some fontPath) \<Rightarrow>
            (let mime = (case mimeMap (toLowerCase (path_extname fontPath)) of
                           Some m \<Rightarrow> m
                         | None \<Rightarrow> ''application/octet-stream'')
             in FontStream fontPath mime)
        | Inr None \<Rightarrow> NotFound ''Font not found'')"

text \<open>
  The installation of the examples: the executable lies in \<open>/opt/overlay\<close>, and that
  directory holds the given entries.
\<close>

definition install :: "bool \<Rightarrow> (string \<times> fs_node) list \<Rightarrow> host" where
  "install cs entries =
     \<lparr>fs_root = Dir [(''opt'', Dir [(''overlay'', Dir entries)])],
      case_sensitive = cs,
      execDir = [''opt'', ''overlay'']\<rparr>"

section \<open>The broadcast channel\<close>

text \<open>
  The settings object pushed on connection: the four constants fixed at start-up.
\<close>

record settings =
  viewportHeight :: js_number
  messageSeconds :: js_number
  messageFont :: string
  namefont :: string

datatype server_message =
    SettingsEvent settings      \<comment> \<open>\<open>socket.emit('settings', ...)\<close>\<close>
  | ChatMessageEvent ChatEvent  \<comment> \<open>\<open>io.emit('chatMessage', ...)\<close>\<close>

text \<open>
  The state of the Socket.IO server, as far as the two handlers touch it. Sockets are
  numbered in the order in which they connect. \<open>connected\<close> holds the sockets that
  \<open>io.emit\<close> reaches, and \<open>sent s\<close> is what has been emitted to socket \<open>s\<close>, oldest
  first. JavaScript runs each handler to completion, so a notification is one step.
  Socket.IO registers a new socket and raises \<open>connection\<close> for it in one synchronous
  call, which is why registration and the handler are one step here.
\<close>

record server =
  next_socket :: nat
  connected :: "nat list"
  sent :: "nat \<Rightarrow> server_message list"

datatype notification =
    Connection
  | Disconnect nat
  | Message string tags string bool

definition initial_server :: server where
  "initial_server = \<lparr>next_socket = 0, connected = [], sent = (\<lambda>_. [])\<rparr>"

definition socket_emit :: "nat \<Rightarrow> server_message \<Rightarrow> server \<Rightarrow> server" where
  "socket_emit s m st = st\<lparr>sent := (sent st)(s := sent st s @ [m])\<rparr>"

definition io_emit :: "server_message \<Rightarrow> server \<Rightarrow> server" where
  "io_emit m st = fold (\<lambda>s. socket_emit s m) (connected st) st"

text \<open>The \<open>io.on('connection', (socket) => ...)\<close> handler.\<close>

definition io_on_connection :: "settings \<Rightarrow> nat \<Rightarrow> server \<Rightarrow> server" where
  "io_on_connection cfg socket st = socket_emit socket (SettingsEvent cfg) st"

fun step :: "settings \<Rightarrow> server \<Rightarrow> notification \<Rightarrow> server" where
  "step cfg st Connection =
     (let socket = next_socket st
      in io_on_connection cfg socket
           (st\<lparr>next_socket := Suc socket, connected := connected st @ [socket]\<rparr>))"
| "step cfg st (Disconnect s) = st\<lparr>connected := removeAll s (connected st)\<rparr>"
| "step cfg st (Message chan t msg self) =
     fold (\<lambda>ev. io_emit (ChatMessageEvent ev)) (client_on_message chan t msg self) st"

definition run :: "settings \<Rightarrow> notification list \<Rightarrow> server" where
  "run cfg ns = foldl (step cfg) initial_server ns"

text \<open>
  The invariant of the channel: every socket that has connected was sent the settings
  first and only chat messages after them, a socket that has not connected was sent
  nothing, and only sockets that have connected are broadcast targets.
\<close>

definition settings_first :: "settings \<Rightarrow> server \<Rightarrow> bool" where
  "settings_first cfg st \<longleftrightarrow>
     (\<forall>s. s < next_socket st \<longrightarrow>
        (\<exists>chats. sent st s = SettingsEvent cfg # map ChatMessageEvent chats))
     \<and> (\<forall>s. next_socket st \<le> s \<longrightarrow> sent st s = [])
     \<and> (\<forall>s \<in> set (connected st). s < next_socket st)"

section \<open>Properties of the chat event normalisation\<close>

lemma forEach_position_append:
  "forEach_position emoteId positions acc = acc @ map (position_span emoteId) positions"
  by (induction positions arbitrary: acc) simp_all

lemma for_in_emotes_append:
  "for_in_emotes m acc =
     acc @ concat (map (\<lambda>(emoteId, positions). map (position_span emoteId) positions) m)"
  by (induction m arbitrary: acc) (auto simp: forEach_position_append)

lemma length_concat_spans:
  "length (concat (map (\<lambda>(emoteId, positions). map (position_span emoteId) positions) m)) =
     sum_list (map (\<lambda>(emoteId, positions). length positions) m)"
  by (induction m) auto

text \<open>
  C3. Every message notification makes exactly one \<open>chatMessage\<close> emission. Its username is
  \<open>Anonymous\<close> when the display-name tag is absent, its colour is \<open>#ffffff\<close> when the colour
  tag is absent or empty, and its message is the message text as received.
\<close>

theorem normalize_one_event_with_defaults:
  "\<exists>ev. client_on_message chan t msg self = [ev]
      \<and> (display_name t = None \<longrightarrow> username ev = ''Anonymous'')
      \<and> (tag_color t = None \<or> tag_color t = Some [] \<longrightarrow> color ev = ''#ffffff'')
      \<and> message ev = msg"
  by (simp add: client_on_message_def or_default_def)

theorem normalize_one_event_with_defaults_witness:
  "display_name \<lparr>display_name = None, tag_color = Some [], tag_emotes = None\<rparr> = None
   \<and> tag_color \<lparr>display_name = None, tag_color = Some [], tag_emotes = None\<rparr> = Some []
   \<and> (\<exists>ev. client_on_message ''mychannel''
              \<lparr>display_name = None, tag_color = Some [], tag_emotes = None\<rparr> ''LUL hi'' False = [ev]
          \<and> username ev = ''Anonymous'' \<and> color ev = ''#ffffff'' \<and> message ev = ''LUL hi'')"
  using normalize_one_event_with_defaults
    [of "''mychannel''" "\<lparr>display_name = None, tag_color = Some [], tag_emotes = None\<rparr>"
        "''LUL hi''" False]
  by simp

text \<open>
  C4. The spans come out in the order in which the emotes object is enumerated: for each id
  in turn, one span per position token, in the order of the tokens. Nothing is sorted and
  nothing is dropped, so there are as many spans as tokens. The map \<open>{ "25": ["0-4", "10-14"] }\<close>
  gives the spans \<open>(25, 0, 4)\<close> and \<open>(25, 10, 14)\<close> in that order, and an absent emotes
  object gives no span.
\<close>

theorem extract_emotes_order:
  "extract_emotes (Some m) =
     concat (map (\<lambda>(emoteId, positions). map (position_span emoteId) positions) m)
   \<and> length (extract_emotes (Some m)) = sum_list (map (\<lambda>(emoteId, positions). length positions) m)
   \<and> extract_emotes (Some [(''25'', [''0-4'', ''10-14''])]) =
       [\<lparr>span_id = ''25'', span_start = JSNumber (Finite 0), span_end = JSNumber (Finite 4)\<rparr>,
        \<lparr>span_id = ''25'', span_start = JSNumber (Finite 10), span_end = JSNumber (Finite 14)\<rparr>]
   \<and> extract_emotes None = []"
proof -
  have order: "extract_emotes (Some m) =
     concat (map (\<lambda>(emoteId, positions). map (position_span emoteId) positions) m)"
    by (simp add: extract_emotes_def for_in_emotes_append)
  have count: "length (extract_emotes (Some m)) =
     sum_list (map (\<lambda>(emoteId, positions). length positions) m)"
    by (simp only: order length_concat_spans)
  have example: "extract_emotes (Some [(''25'', [''0-4'', ''10-14''])]) =
       [\<lparr>span_id = ''25'', span_start = JSNumber (Finite 0), span_end = JSNumber (Finite 4)\<rparr>,
        \<lparr>span_id = ''25'', span_start = JSNumber (Finite 10), span_end = JSNumber (Finite 14)\<rparr>]"
    by code_simp
  have absent: "extract_emotes None = []"
    by (simp add: extract_emotes_def)
  from order count example absent show ?thesis by blast
qed

text \<open>
  C9. A display-name tag that is present but empty is falsy, so the username of the event
  is \<open>Anonymous\<close>.
\<close>

theorem empty_display_name_is_anonymous:
  "display_name t = Some [] \<Longrightarrow>
     map username (client_on_message chan t msg self) = [''Anonymous'']"
  by (simp add: client_on_message_def or_default_def)

theorem empty_display_name_is_anonymous_witness:
  "display_name \<lparr>display_name = Some [], tag_color = Some ''#ff0000'', tag_emotes = None\<rparr> = Some []
   \<and> map username (client_on_message ''mychannel''
         \<lparr>display_name = Some [], tag_color = Some ''#ff0000'', tag_emotes = None\<rparr> ''hi'' False)
       = [''Anonymous'']"
  using empty_display_name_is_anonymous
    [of "\<lparr>display_name = Some [], tag_color = Some ''#ff0000'', tag_emotes = None\<rparr>"
        "''mychannel''" "''hi''" False]
  by simp

text \<open>
  C10. The handler never reads its \<open>self\<close> argument: two notifications that differ only in
  that flag emit the same events.
\<close>

theorem echo_flag_is_ignored:
  "client_on_message chan t msg True = client_on_message chan t msg False"
  by (simp add: client_on_message_def)

section \<open>Properties of the broadcast channel\<close>

lemma settings_first_initial: "settings_first cfg initial_server"
  by (simp add: settings_first_def initial_server_def)

lemma settings_first_chat_emit:
  assumes "settings_first cfg st" and "s \<in> set (connected st)"
  shows "settings_first cfg (socket_emit s (ChatMessageEvent ev) st)"
proof -
  from assms have lt: "s < next_socket st"
    by (simp add: settings_first_def)
  from assms(1) lt obtain chats
    where "sent st s = SettingsEvent cfg # map ChatMessageEvent chats"
    by (auto simp: settings_first_def)
  then have "sent st s @ [ChatMessageEvent ev] =
      SettingsEvent cfg # map ChatMessageEvent (chats @ [ev])"
    by simp
  with assms(1) lt show ?thesis
    unfolding settings_first_def socket_emit_def
    by (auto simp del: map_append)
qed

lemma socket_emit_connected: "connected (socket_emit s m st) = connected st"
  by (simp add: socket_emit_def)

lemma settings_first_fold_emit:
  "settings_first cfg st \<Longrightarrow> set xs \<subseteq> set (connected st) \<Longrightarrow>
     settings_first cfg (fold (\<lambda>s. socket_emit s (ChatMessageEvent ev)) xs st)
     \<and> connected (fold (\<lambda>s. socket_emit s (ChatMessageEvent ev)) xs st) = connected st"
proof (induction xs arbitrary: st)
  case Nil
  then show ?case by simp
next
  case (Cons x xs)
  then show ?case
    by (simp add: settings_first_chat_emit socket_emit_connected)
qed

lemma settings_first_io_emit:
  "settings_first cfg st \<Longrightarrow> settings_first cfg (io_emit (ChatMessageEvent ev) st)"
  unfolding io_emit_def using settings_first_fold_emit [of cfg st "connected st" ev] by simp

lemma settings_first_publish:
  "settings_first cfg st \<Longrightarrow>
     settings_first cfg (fold (\<lambda>ev. io_emit (ChatMessageEvent ev)) evs st)"
  by (induction evs arbitrary: st) (simp_all add: settings_first_io_emit)

lemma settings_first_step:
  assumes "settings_first cfg st"
  shows "settings_first cfg (step cfg st n)"
proof (cases n)
  case Connection
  have "sent st (next_socket st) = []"
    using assms by (simp add: settings_first_def)
  then show ?thesis
    using assms Connection
    unfolding settings_first_def
    by (auto simp: io_on_connection_def socket_emit_def Let_def less_Suc_eq)
next
  case (Disconnect s)
  then show ?thesis
    using assms by (auto simp: settings_first_def)
next
  case (Message chan t msg self)
  then show ?thesis
    using assms by (simp add: settings_first_publish)
qed

lemma settings_first_foldl:
  "settings_first cfg st \<Longrightarrow> settings_first cfg (foldl (step cfg) st ns)"
  by (induction ns arbitrary: st) (simp_all add: settings_first_step)

text \<open>
  C6. After any sequence of connections, disconnections and chat messages, what the
  server has emitted to a socket that has connected is the settings event followed by
  chat messages only: the settings are pushed once per connection, and they come before
  every chat event emitted to that socket.
\<close>

theorem settings_pushed_once_and_first:
  "s < next_socket (run cfg ns) \<Longrightarrow>
     \<exists>chats. sent (run cfg ns) s = SettingsEvent cfg # map ChatMessageEvent chats"
  using settings_first_foldl [OF settings_first_initial, of cfg ns]
  by (simp add: run_def settings_first_def)

theorem settings_pushed_once_and_first_witness:
  "1 < next_socket
         (run \<lparr>viewportHeight = Finite 1080, messageSeconds = Finite 30,
                messageFont = ''Arial'', namefont = ''Arial''\<rparr>
            [Connection,
             Message ''mychannel''
               \<lparr>display_name = Some ''Bob'', tag_color = Some ''#ff0000'', tag_emotes = None\<rparr>
               ''LUL hi'' False,
             Connection,
             Message ''mychannel''
               \<lparr>display_name = None, tag_color = None, tag_emotes = None\<rparr> ''hello'' False])
   \<and> (\<exists>chats.
        sent (run \<lparr>viewportHeight = Finite 1080, messageSeconds = Finite 30,
                    messageFont = ''Arial'', namefont = ''Arial''\<rparr>
                [Connection,
                 Message ''mychannel''
                   \<lparr>display_name = Some ''Bob'', tag_color = Some ''#ff0000'', tag_emotes = None\<rparr>
                   ''LUL hi'' False,
                 Connection,
                 Message ''mychannel''
                   \<lparr>display_name = None, tag_color = None, tag_emotes = None\<rparr> ''hello'' False]) 1
        = SettingsEvent \<lparr>viewportHeight = Finite 1080, messageSeconds = Finite 30,
                          messageFont = ''Arial'', namefont = ''Arial''\<rparr>
          # map ChatMessageEvent chats)"
proof -
  let ?cfg = "\<lparr>viewportHeight = Finite 1080, messageSeconds = Finite 30,
                messageFont = ''Arial'', namefont = ''Arial''\<rparr>"
  let ?ns = "[Connection,
             Message ''mychannel''
               \<lparr>display_name = Some ''Bob'', tag_color = Some ''#ff0000'', tag_emotes = None\<rparr>
               ''LUL hi'' False,
             Connection,
             Message ''mychannel''
               \<lparr>display_name = None, tag_color = None, tag_emotes = None\<rparr> ''hello'' False]"
  have connected_twice: "1 < next_socket (run ?cfg ?ns)"
    by (simp add: run_def initial_server_def client_on_message_def io_on_connection_def
        io_emit_def socket_emit_def)
  from settings_pushed_once_and_first [OF connected_twice] connected_twice
  show ?thesis by blast
qed

section \<open>Properties of the file system and of the font handler\<close>

lemma of_char_lower_char:
  "(of_char (lower_char c) :: nat) =
     (if (65 \<le> (of_char c :: nat) \<and> (of_char c :: nat) \<le> 90)
         \<or> (192 \<le> (of_char c :: nat) \<and> (of_char c :: nat) \<le> 222 \<and> (of_char c :: nat) \<noteq> 215)
      then of_char c + 32 else of_char c)"
  by (simp add: lower_char_def Let_def)

lemma lower_char_slash: "lower_char c = CHR ''/'' \<longleftrightarrow> c = CHR ''/''"
proof -
  have "lower_char c = CHR ''/'' \<longleftrightarrow> (of_char (lower_char c) :: nat) = of_char (CHR ''/'')"
    by (simp only: of_char_eq_iff)
  also have "\<dots> \<longleftrightarrow> (of_char c :: nat) = of_char (CHR ''/'')"
    by (simp add: of_char_lower_char)
  also have "\<dots> \<longleftrightarrow> c = CHR ''/''"
    by (simp only: of_char_eq_iff)
  finally show ?thesis .
qed

lemma slash_in_toLowerCase: "CHR ''/'' \<in> set (toLowerCase s) \<longleftrightarrow> CHR ''/'' \<in> set s"
  unfolding toLowerCase_def set_map by (metis image_iff lower_char_slash)

lemma length_toLowerCase: "length (toLowerCase s) = length s"
  by (simp add: toLowerCase_def)

lemma toLowerCase_append: "toLowerCase (a @ b) = toLowerCase a @ toLowerCase b"
  by (simp add: toLowerCase_def)


lemma split_no_sep: "sep \<notin> set s \<Longrightarrow> split sep s = [s]"
  by (induction s) auto

lemma path_join_plain:
  "CHR ''/'' \<notin> set rel \<Longrightarrow> rel \<noteq> [] \<Longrightarrow> rel \<noteq> ''.'' \<Longrightarrow> rel \<noteq> ''..'' \<Longrightarrow>
     path_join d rel = d @ [rel]"
  by (simp add: path_join_def split_no_sep push_segment_def)

lemma lookup_snoc:
  "lookup cs n (p @ [seg]) =
     (case lookup cs n p of
        Some (Dir entries) \<Rightarrow> map_option snd (find (\<lambda>entry. same_name cs (fst entry) seg) entries)
      | _ \<Rightarrow> None)"
proof (induction p arbitrary: n)
  case Nil
  show ?case by (cases n) (auto split: option.splits)
next
  case (Cons a p)
  show ?case by (cases n) (auto simp: Cons.IH split: option.splits)
qed

lemma readdirSync_Inr:
  "readdirSync h d = Inr names \<Longrightarrow>
     \<exists>entries. node_at h d = Some (Dir entries) \<and> names = map fst entries"
  by (auto simp: readdirSync_def split: option.splits fs_node.splits)

lemma existsSync_child:
  assumes "readdirSync h d = Inr names" and "CHR 0x00 \<notin> set n"
  shows "existsSync h (d @ [n]) \<longleftrightarrow> (\<exists>f \<in> set names. same_name (case_sensitive h) f n)"
proof -
  from assms(1) obtain entries
    where node: "node_at h d = Some (Dir entries)" and names: "names = map fst entries"
    using readdirSync_Inr by blast
  from node have clean: "\<not> list_ex (\<lambda>seg. CHR 0x00 \<in> set seg) d"
    and look: "lookup (case_sensitive h) (fs_root h) d = Some (Dir entries)"
    by (auto simp: node_at_def split: if_splits)
  from clean assms(2) have "node_at h (d @ [n]) = lookup (case_sensitive h) (fs_root h) (d @ [n])"
    by (simp add: node_at_def)
  then have "existsSync h (d @ [n]) \<longleftrightarrow>
      find (\<lambda>entry. same_name (case_sensitive h) (fst entry) n) entries \<noteq> None"
    by (simp add: existsSync_def lookup_snoc look del: not_None_eq)
  also have "\<dots> \<longleftrightarrow> (\<exists>entry \<in> set entries. same_name (case_sensitive h) (fst entry) n)"
    by (force simp: find_None_iff)
  also have "\<dots> \<longleftrightarrow> (\<exists>f \<in> set names. same_name (case_sensitive h) f n)"
    by (simp add: names)
  finally show ?thesis .
qed

lemma existsSync_child_missing:
  assumes "\<not> existsSync h d"
  shows "\<not> existsSync h (d @ [n])"
  using assms
  by (auto simp: existsSync_def node_at_def lookup_snoc split: if_splits)

lemma readdirSync_exists: "readdirSync h d = Inr names \<Longrightarrow> existsSync h d"
  by (auto simp: readdirSync_def existsSync_def split: option.splits)

lemma same_name_lower: "same_name cs f n \<Longrightarrow> toLowerCase f = toLowerCase n"
  by (auto simp: same_name_def split: if_splits)

lemma long_name_plain: "4 \<le> length s \<Longrightarrow> s \<noteq> [] \<and> s \<noteq> ''.'' \<and> s \<noteq> ''..''"
  by auto

lemma name_ext_length: "e \<in> set extensions \<Longrightarrow> 4 \<le> length (name @ e)"
  by (auto simp: extensions_def)

lemma name_ext_plain:
  assumes "e \<in> set extensions" and "CHR ''/'' \<notin> set name"
  shows "path_join d (name @ e) = d @ [name @ e]"
proof -
  from assms(1) have len: "4 \<le> length (name @ e)" by (rule name_ext_length)
  from assms have "CHR ''/'' \<notin> set (name @ e)" by (auto simp: extensions_def)
  moreover from len have "name @ e \<noteq> []" "name @ e \<noteq> ''.''" "name @ e \<noteq> ''..''"
    using long_name_plain [of "name @ e"] by blast+
  ultimately show ?thesis by (rule path_join_plain)
qed

lemma match_plain:
  assumes "e \<in> set extensions" and "CHR ''/'' \<notin> set name"
    and "toLowerCase f = toLowerCase (name @ e)"
  shows "path_join d f = d @ [f]"
proof -
  from assms(1) have "4 \<le> length (name @ e)" by (rule name_ext_length)
  with assms(3) have len: "4 \<le> length f"
    by (metis length_toLowerCase)
  from assms(1,2) have "CHR ''/'' \<notin> set (name @ e)" by (auto simp: extensions_def)
  with assms(3) have "CHR ''/'' \<notin> set f"
    by (metis slash_in_toLowerCase)
  moreover from len have "f \<noteq> []" "f \<noteq> ''.''" "f \<noteq> ''..''"
    by auto
  ultimately show ?thesis by (rule path_join_plain)
qed


lemma existsSync_child_entry:
  assumes "readdirSync h d = Inr names" and "existsSync h (d @ [n])"
  shows "\<exists>f \<in> set names. same_name (case_sensitive h) f n"
proof -
  from assms(2) have "CHR 0x00 \<notin> set n"
    by (auto simp: existsSync_def node_at_def split: if_splits)
  with assms show ?thesis by (simp add: existsSync_child)
qed

lemma find_SomeD: "find P xs = Some x \<Longrightarrow> x \<in> set xs \<and> P x"
  by (induction xs) (auto split: if_splits)

lemma find_ex_Some: "x \<in> set xs \<Longrightarrow> P x \<Longrightarrow> \<exists>y. find P xs = Some y"
  by (induction xs) auto

lemma find_eq_self: "x \<in> set xs \<Longrightarrow> find (\<lambda>f. f = x) xs = Some x"
  by (induction xs) auto

lemma try_extensions_missing_dir:
  assumes "\<not> existsSync h (fontsDir h)" and "CHR ''/'' \<notin> set name"
  shows "set es \<subseteq> set extensions \<Longrightarrow> try_extensions h name es = Inr None"
proof (induction es)
  case Nil
  show ?case by simp
next
  case (Cons e es)
  then have e: "e \<in> set extensions" by simp
  have "\<not> existsSync h (path_join (fontsDir h) (name @ e))"
    using assms by (simp add: name_ext_plain [OF e] existsSync_child_missing)
  with Cons assms(1) show ?case by simp
qed

lemma try_extensions_miss:
  assumes dir: "readdirSync h (fontsDir h) = Inr names"
    and plain: "CHR ''/'' \<notin> set name"
    and e: "e \<in> set extensions"
    and miss: "\<forall>f \<in> set names. toLowerCase f \<noteq> toLowerCase (name @ e)"
  shows "try_extensions h name (e # es) = try_extensions h name es"
proof -
  have "\<not> existsSync h (fontsDir h @ [name @ e])"
    using existsSync_child_entry [OF dir] same_name_lower miss by blast
  then have no_candidate: "\<not> existsSync h (path_join (fontsDir h) (name @ e))"
    by (simp add: name_ext_plain [OF e plain])
  from miss have "find (\<lambda>f. toLowerCase f = toLowerCase (name @ e)) names = None"
    by (simp add: find_None_iff)
  with no_candidate dir readdirSync_exists [OF dir] show ?thesis by simp
qed

lemma try_extensions_hit:
  assumes dir: "readdirSync h (fontsDir h) = Inr names"
    and plain: "CHR ''/'' \<notin> set name"
    and e: "e \<in> set extensions"
    and hit: "f0 \<in> set names" "toLowerCase f0 = toLowerCase (name @ e)"
  shows "\<exists>n f. try_extensions h name (e # es) = Inr (Some (fontsDir h @ [n]))
           \<and> stored_name h (fontsDir h) n = Some f \<and> f \<in> set names
           \<and> toLowerCase f = toLowerCase (name @ e) \<and> (n = name @ e \<or> n = f)"
proof (cases "existsSync h (fontsDir h @ [name @ e])")
  case True
  then have result: "try_extensions h name (e # es) = Inr (Some (fontsDir h @ [name @ e]))"
    by (simp add: name_ext_plain [OF e plain])
  from existsSync_child_entry [OF dir True] obtain f1
    where "f1 \<in> set names" "same_name (case_sensitive h) f1 (name @ e)" by blast
  then obtain f where f: "find (\<lambda>f. same_name (case_sensitive h) f (name @ e)) names = Some f"
    using find_ex_Some [of f1 names "\<lambda>f. same_name (case_sensitive h) f (name @ e)"] by blast
  then have "f \<in> set names" "same_name (case_sensitive h) f (name @ e)"
    using find_SomeD [OF f] by simp_all
  with f result dir show ?thesis
    by (auto simp: stored_name_def dest: same_name_lower)
next
  case False
  from hit obtain match
    where found: "find (\<lambda>f. toLowerCase f = toLowerCase (name @ e)) names = Some match"
    using find_ex_Some [of f0 names "\<lambda>f. toLowerCase f = toLowerCase (name @ e)"] by blast
  then have match: "match \<in> set names" "toLowerCase match = toLowerCase (name @ e)"
    using find_SomeD [OF found] by simp_all
  have join: "path_join (fontsDir h) match = fontsDir h @ [match]"
    using e plain match(2) by (rule match_plain)
  from False found dir readdirSync_exists [OF dir]
  have result: "try_extensions h name (e # es) = Inr (Some (fontsDir h @ [match]))"
    by (simp add: name_ext_plain [OF e plain] join)
  have "find (\<lambda>f. same_name (case_sensitive h) f match) names = Some match"
  proof (cases "case_sensitive h")
    case True
    with match(1) show ?thesis by (simp add: same_name_def find_eq_self)
  next
    case False
    with found match(2) show ?thesis by (simp add: same_name_def)
  qed
  with result dir match show ?thesis
    by (auto simp: stored_name_def)
qed

lemma try_extensions_succeeds:
  assumes dir: "readdirSync h (fontsDir h) = Inr names"
    and plain: "CHR ''/'' \<notin> set name"
  shows "set es \<subseteq> set extensions \<Longrightarrow>
     \<exists>e \<in> set es. \<exists>f \<in> set names. toLowerCase f = toLowerCase (name @ e) \<Longrightarrow>
     \<exists>p. try_extensions h name es = Inr (Some p)"
proof (induction es)
  case Nil
  then show ?case by simp
next
  case (Cons e es)
  then have e: "e \<in> set extensions" by simp
  show ?case
  proof (cases "\<exists>f \<in> set names. toLowerCase f = toLowerCase (name @ e)")
    case True
    then show ?thesis using try_extensions_hit [OF dir plain e] by blast
  next
    case False
    then have "try_extensions h name (e # es) = try_extensions h name es"
      using try_extensions_miss [OF dir plain e] by blast
    moreover from False Cons.prems
    have "\<exists>e \<in> set es. \<exists>f \<in> set names. toLowerCase f = toLowerCase (name @ e)" by auto
    ultimately show ?thesis using Cons by simp
  qed
qed

lemma extensions_lower: "e \<in> set extensions \<Longrightarrow> toLowerCase e = e"
  by (auto simp: extensions_def toLowerCase_def lower_char_def)

lemma extensions_lower_inj:
  "e \<in> set extensions \<Longrightarrow> e' \<in> set extensions \<Longrightarrow> toLowerCase e = toLowerCase e' \<Longrightarrow> e = e'"
  by (simp add: extensions_lower)

lemma try_extensions_unique:
  assumes dir: "readdirSync h (fontsDir h) = Inr names"
    and plain: "CHR ''/'' \<notin> set name"
    and e0: "e0 \<in> set extensions"
    and target: "target \<in> set names" "toLowerCase target = toLowerCase (name @ e0)"
    and uniq: "\<forall>f \<in> set names. \<forall>e \<in> set extensions.
                 toLowerCase f = toLowerCase (name @ e) \<longrightarrow> f = target"
  shows "set es \<subseteq> set extensions \<Longrightarrow> e0 \<in> set es \<Longrightarrow>
     \<exists>n. try_extensions h name es = Inr (Some (fontsDir h @ [n]))
         \<and> stored_name h (fontsDir h) n = Some target \<and> (n = name @ e0 \<or> n = target)"
proof (induction es)
  case Nil
  then show ?case by simp
next
  case (Cons e es)
  then have e: "e \<in> set extensions" by simp
  show ?case
  proof (cases "e = e0")
    case True
    from try_extensions_hit [OF dir plain e0 target, of es] obtain n f
      where "try_extensions h name (e0 # es) = Inr (Some (fontsDir h @ [n]))"
        and "stored_name h (fontsDir h) n = Some f" and "f \<in> set names"
        and "toLowerCase f = toLowerCase (name @ e0)" and "n = name @ e0 \<or> n = f"
      by blast
    moreover from this uniq e0 have "f = target" by blast
    ultimately show ?thesis using True by blast
  next
    case False
    have "\<forall>f \<in> set names. toLowerCase f \<noteq> toLowerCase (name @ e)"
    proof
      fix f assume f: "f \<in> set names"
      show "toLowerCase f \<noteq> toLowerCase (name @ e)"
      proof
        assume eq: "toLowerCase f = toLowerCase (name @ e)"
        with uniq f e have "f = target" by blast
        with eq target(2) have "toLowerCase (name @ e) = toLowerCase (name @ e0)" by simp
        then have "toLowerCase e = toLowerCase e0" by (simp add: toLowerCase_append)
        with e e0 have "e = e0" by (rule extensions_lower_inj)
        with False show False by contradiction
      qed
    qed
    then have "try_extensions h name (e # es) = try_extensions h name es"
      by (rule try_extensions_miss [OF dir plain e])
    with Cons False show ?thesis by simp
  qed
qed

lemma strip_Comic_Sans: "strip_extension ''Comic-Sans'' = ''Comic-Sans''"
  by code_simp

lemma strip_MyFont: "strip_extension ''MyFont.ttf'' = ''MyFont''"
  by code_simp

text \<open>
  C7. The claim is that the request for \<open>Comic-Sans\<close> returns \<open>comic-sans.woff2\<close> whenever
  the fonts directory contains that file. The extensions are tried in the order \<open>.ttf\<close>,
  \<open>.otf\<close>, \<open>.woff\<close>, \<open>.woff2\<close> and the first match ends the loop: with \<open>comic-sans.ttf\<close>
  beside \<open>comic-sans.woff2\<close> the answer is \<open>comic-sans.ttf\<close>.
\<close>

theorem priority_order_counterexample:
  "readdirSync
      (install True [(''fonts'', Dir [(''comic-sans.ttf'', File), (''comic-sans.woff2'', File)])])
      (fontsDir
        (install True [(''fonts'', Dir [(''comic-sans.ttf'', File), (''comic-sans.woff2'', File)])]))
    = Inr [''comic-sans.ttf'', ''comic-sans.woff2'']
   \<and> get_fonts
        (install True [(''fonts'', Dir [(''comic-sans.ttf'', File), (''comic-sans.woff2'', File)])])
        ''Comic-Sans''
       = FontStream [''opt'', ''overlay'', ''fonts'', ''comic-sans.ttf''] ''font/ttf''"
  by code_simp

text \<open>
  C7, as the handler behaves: when the fonts directory lists \<open>comic-sans.woff2\<close>, the
  request for \<open>Comic-Sans\<close> is answered with a font; and when no other entry of the
  directory equals \<open>Comic-Sans\<close> with a supported extension up to letter case, the font
  that is streamed is that file, under the content type \<open>font/woff2\<close>.
\<close>

theorem comic_sans_is_found:
  assumes "readdirSync h (fontsDir h) = Inr names" and "''comic-sans.woff2'' \<in> set names"
  shows "(\<exists>p mime. get_fonts h ''Comic-Sans'' = FontStream p mime)
    \<and> ((\<forall>f \<in> set names. \<forall>e \<in> set extensions.
           toLowerCase f = toLowerCase (''Comic-Sans'' @ e) \<longrightarrow> f = ''comic-sans.woff2'')
       \<longrightarrow> (\<exists>n. get_fonts h ''Comic-Sans'' = FontStream (fontsDir h @ [n]) ''font/woff2''
              \<and> stored_name h (fontsDir h) n = Some ''comic-sans.woff2''))"
proof
  have plain: "CHR ''/'' \<notin> set ''Comic-Sans''" by simp
  have woff2: "''.woff2'' \<in> set extensions" by (simp add: extensions_def)
  have lower: "toLowerCase ''comic-sans.woff2'' = toLowerCase (''Comic-Sans'' @ ''.woff2'')"
    by code_simp
  from woff2 lower assms(2)
  have "\<exists>e \<in> set extensions. \<exists>f \<in> set names. toLowerCase f = toLowerCase (''Comic-Sans'' @ e)"
    by blast
  with try_extensions_succeeds [OF assms(1) plain, of extensions]
  obtain p where "try_extensions h ''Comic-Sans'' extensions = Inr (Some p)" by auto
  then show "\<exists>p mime. get_fonts h ''Comic-Sans'' = FontStream p mime"
    by (simp add: get_fonts_def strip_Comic_Sans)
  show "(\<forall>f \<in> set names. \<forall>e \<in> set extensions.
           toLowerCase f = toLowerCase (''Comic-Sans'' @ e) \<longrightarrow> f = ''comic-sans.woff2'')
       \<longrightarrow> (\<exists>n. get_fonts h ''Comic-Sans'' = FontStream (fontsDir h @ [n]) ''font/woff2''
              \<and> stored_name h (fontsDir h) n = Some ''comic-sans.woff2'')"
  proof
    assume uniq: "\<forall>f \<in> set names. \<forall>e \<in> set extensions.
           toLowerCase f = toLowerCase (''Comic-Sans'' @ e) \<longrightarrow> f = ''comic-sans.woff2''"
    from try_extensions_unique [OF assms(1) plain woff2 assms(2) lower uniq, of extensions] woff2
    obtain n where found: "try_extensions h ''Comic-Sans'' extensions = Inr (Some (fontsDir h @ [n]))"
      and stored: "stored_name h (fontsDir h) n = Some ''comic-sans.woff2''"
      and n: "n = ''Comic-Sans'' @ ''.woff2'' \<or> n = ''comic-sans.woff2''"
      by auto
    have mime1: "mimeMap (toLowerCase (extname (''Comic-Sans'' @ ''.woff2''))) = Some ''font/woff2''"
      by code_simp
    have mime2: "mimeMap (toLowerCase (extname ''comic-sans.woff2'')) = Some ''font/woff2''"
      by code_simp
    from n mime1 mime2 have "mimeMap (toLowerCase (path_extname (fontsDir h @ [n]))) = Some ''font/woff2''"
      by (auto simp: path_extname_def)
    with found stored show "\<exists>n. get_fonts h ''Comic-Sans'' = FontStream (fontsDir h @ [n]) ''font/woff2''
              \<and> stored_name h (fontsDir h) n = Some ''comic-sans.woff2''"
      by (simp add: get_fonts_def strip_Comic_Sans)
  qed
qed

theorem comic_sans_is_found_witness:
  "readdirSync (install False [(''fonts'', Dir [(''comic-sans.woff2'', File)])])
      (fontsDir (install False [(''fonts'', Dir [(''comic-sans.woff2'', File)])]))
    = Inr [''comic-sans.woff2'']
   \<and> ''comic-sans.woff2'' \<in> set [''comic-sans.woff2'']
   \<and> (\<exists>n. get_fonts (install False [(''fonts'', Dir [(''comic-sans.woff2'', File)])]) ''Comic-Sans''
            = FontStream
                (fontsDir (install False [(''fonts'', Dir [(''comic-sans.woff2'', File)])]) @ [n])
                ''font/woff2''
          \<and> stored_name (install False [(''fonts'', Dir [(''comic-sans.woff2'', File)])])
                (fontsDir (install False [(''fonts'', Dir [(''comic-sans.woff2'', File)])])) n
              = Some ''comic-sans.woff2'')"
proof -
  let ?h = "install False [(''fonts'', Dir [(''comic-sans.woff2'', File)])]"
  have dir: "readdirSync ?h (fontsDir ?h) = Inr [''comic-sans.woff2'']"
    by code_simp
  have listed: "''comic-sans.woff2'' \<in> set [''comic-sans.woff2'']"
    by simp
  have only: "\<forall>f \<in> set [''comic-sans.woff2'']. \<forall>e \<in> set extensions.
      toLowerCase f = toLowerCase (''Comic-Sans'' @ e) \<longrightarrow> f = ''comic-sans.woff2''"
    by simp
  from comic_sans_is_found [OF dir listed] only dir listed show ?thesis
    by blast
qed

text \<open>
  C1. The claim is that a request for \<open>MyFont.ttf\<close> is answered with not-found when the
  fonts directory holds only \<open>myfont.otf\<close>. The handler strips the requested extension and
  then tries every supported extension, so the stored file is found: on a case-sensitive
  file system the answer is the stream of \<open>myfont.otf\<close> under \<open>font/otf\<close>.
\<close>

theorem extension_mismatch_counterexample:
  "readdirSync (install True [(''fonts'', Dir [(''myfont.otf'', File)])])
      (fontsDir (install True [(''fonts'', Dir [(''myfont.otf'', File)])]))
    = Inr [''myfont.otf'']
   \<and> get_fonts (install True [(''fonts'', Dir [(''myfont.otf'', File)])]) ''MyFont.ttf''
       = FontStream [''opt'', ''overlay'', ''fonts'', ''myfont.otf''] ''font/otf''"
  by code_simp

text \<open>
  C1, as the handler behaves: whenever the fonts directory lists exactly \<open>myfont.otf\<close>, the
  request for \<open>MyFont.ttf\<close> streams that file under the content type \<open>font/otf\<close>.
\<close>

theorem extension_mismatch_is_served:
  assumes "readdirSync h (fontsDir h) = Inr [''myfont.otf'']"
  shows "\<exists>n. get_fonts h ''MyFont.ttf'' = FontStream (fontsDir h @ [n]) ''font/otf''
            \<and> stored_name h (fontsDir h) n = Some ''myfont.otf''"
proof -
  have plain: "CHR ''/'' \<notin> set ''MyFont''" by simp
  have otf: "''.otf'' \<in> set extensions" by (simp add: extensions_def)
  have listed: "''myfont.otf'' \<in> set [''myfont.otf'']" by simp
  have lower: "toLowerCase ''myfont.otf'' = toLowerCase (''MyFont'' @ ''.otf'')"
    by code_simp
  have only: "\<forall>f \<in> set [''myfont.otf'']. \<forall>e \<in> set extensions.
      toLowerCase f = toLowerCase (''MyFont'' @ e) \<longrightarrow> f = ''myfont.otf''"
    by simp
  from try_extensions_unique [OF assms plain otf listed lower only, of extensions] otf
  obtain n where found: "try_extensions h ''MyFont'' extensions = Inr (Some (fontsDir h @ [n]))"
    and stored: "stored_name h (fontsDir h) n = Some ''myfont.otf''"
    and n: "n = ''MyFont'' @ ''.otf'' \<or> n = ''myfont.otf''"
    by auto
  have mime1: "mimeMap (toLowerCase (extname (''MyFont'' @ ''.otf''))) = Some ''font/otf''"
    by code_simp
  have mime2: "mimeMap (toLowerCase (extname ''myfont.otf'')) = Some ''font/otf''"
    by code_simp
  from n mime1 mime2
  have "mimeMap (toLowerCase (path_extname (fontsDir h @ [n]))) = Some ''font/otf''"
    by (auto simp: path_extname_def)
  with found stored show ?thesis
    by (simp add: get_fonts_def strip_MyFont)
qed

theorem extension_mismatch_is_served_witness:
  "readdirSync (install False [(''fonts'', Dir [(''myfont.otf'', File)])])
      (fontsDir (install False [(''fonts'', Dir [(''myfont.otf'', File)])]))
    = Inr [''myfont.otf'']
   \<and> (\<exists>n. get_fonts (install False [(''fonts'', Dir [(''myfont.otf'', File)])]) ''MyFont.ttf''
            = FontStream (fontsDir (install False [(''fonts'', Dir [(''myfont.otf'', File)])]) @ [n])
                ''font/otf''
          \<and> stored_name (install False [(''fonts'', Dir [(''myfont.otf'', File)])])
                (fontsDir (install False [(''fonts'', Dir [(''myfont.otf'', File)])])) n
              = Some ''myfont.otf'')"
proof -
  let ?h = "install False [(''fonts'', Dir [(''myfont.otf'', File)])]"
  have dir: "readdirSync ?h (fontsDir ?h) = Inr [''myfont.otf'']"
    by code_simp
  from extension_mismatch_is_served [OF dir] dir show ?thesis
    by blast
qed

text \<open>
  C2. The claim includes the font handler: a request for \<open>Arial\<close> would succeed whatever the
  fonts directory holds. The handler has no special case for that name; with an empty
  fonts directory the answer is not-found.
\<close>

theorem arial_request_counterexample:
  "readdirSync (install True [(''fonts'', Dir [])]) (fontsDir (install True [(''fonts'', Dir [])]))
    = Inr []
   \<and> toLowerCase ''Arial'' = ''arial''
   \<and> get_fonts (install True [(''fonts'', Dir [])]) ''Arial'' = NotFound ''Font not found''"
  by code_simp

text \<open>
  C2, as the code behaves: at start-up, \<open>validateFont\<close> accepts every name that equals
  \<open>arial\<close> up to letter case, whatever the file system holds, and makes no call to \<open>fs\<close>.
\<close>

theorem validateFont_arial_without_lookup:
  "toLowerCase font = ''arial'' \<Longrightarrow> validateFont h font = ([], Inr True)"
  by (simp add: validateFont_def)

theorem validateFont_arial_without_lookup_witness:
  "toLowerCase ''ARIAL'' = ''arial'' \<and> validateFont (install True []) ''ARIAL'' = ([], Inr True)"
proof -
  have arial: "toLowerCase ''ARIAL'' = ''arial''"
    by code_simp
  from validateFont_arial_without_lookup [OF arial] arial show ?thesis
    by blast
qed

text \<open>
  C8. A requested name may contain a path separator (the route parameter is decoded after
  the route is matched). The candidate path then leaves the fonts directory: with an empty
  fonts directory and a file \<open>secret.ttf\<close> beside it, the request for \<open>../secret\<close> is
  answered with that file, although no entry of the fonts directory matches the name.
\<close>

theorem font_outside_fonts_directory:
  "toLowerCase ''../secret'' \<noteq> ''arial''
   \<and> readdirSync (install True [(''fonts'', Dir []), (''secret.ttf'', File)])
        (fontsDir (install True [(''fonts'', Dir []), (''secret.ttf'', File)])) = Inr []
   \<and> get_fonts (install True [(''fonts'', Dir []), (''secret.ttf'', File)]) ''../secret''
       = FontStream [''opt'', ''overlay'', ''secret.ttf''] ''font/ttf''"
  by code_simp

text \<open>
  For a name without a path separator the handler answers not-found when nothing exists
  at the path of the fonts directory, and when a directory is there and none of its
  entries equals the name with a supported extension up to letter case. (When a regular
  file is there, \<open>readdirSync\<close> throws.)
\<close>

lemma plain_name_not_found:
  assumes plain: "CHR ''/'' \<notin> set name"
    and unmatched_or_missing: "\<not> existsSync h (fontsDir h)
       \<or> (\<exists>names. readdirSync h (fontsDir h) = Inr names
            \<and> (\<forall>f \<in> set names. \<forall>e \<in> set extensions.
                  toLowerCase f \<noteq> toLowerCase (name @ e)))"
  shows "try_extensions h name extensions = Inr None"
proof -
  consider (missing) "\<not> existsSync h (fontsDir h)"
    | (unmatched) names where "readdirSync h (fontsDir h) = Inr names"
        "\<forall>f \<in> set names. \<forall>e \<in> set extensions. toLowerCase f \<noteq> toLowerCase (name @ e)"
    using unmatched_or_missing by blast
  then show ?thesis
  proof cases
    case missing
    then show ?thesis using plain by (simp add: try_extensions_missing_dir)
  next
    case unmatched
    have step: "try_extensions h name (e # es) = try_extensions h name es"
      if "e \<in> set extensions" for e es
      using try_extensions_miss [OF unmatched(1) plain that] unmatched(2) that by blast
    have supported: "''.ttf'' \<in> set extensions" "''.otf'' \<in> set extensions"
      "''.woff'' \<in> set extensions" "''.woff2'' \<in> set extensions"
      by (simp_all add: extensions_def)
    have "try_extensions h name [''.ttf'', ''.otf'', ''.woff'', ''.woff2''] = Inr None"
      by (simp only: supported [THEN step] try_extensions.simps(1))
    then show ?thesis
      by (simp only: extensions_def)
  qed
qed

lemma plain_name_status_404:
  assumes "CHR ''/'' \<notin> set (strip_extension font)"
    and "\<not> existsSync h (fontsDir h)
       \<or> (\<exists>names. readdirSync h (fontsDir h) = Inr names
            \<and> (\<forall>f \<in> set names. \<forall>e \<in> set extensions.
                  toLowerCase f \<noteq> toLowerCase (strip_extension font @ e)))"
  shows "get_fonts h font = NotFound ''Font not found''"
  using plain_name_not_found [OF assms] by (simp add: get_fonts_def)

section \<open>Properties of the position tokens\<close>

lemma negate_NaN_iff: "negate x = NaN \<longleftrightarrow> x = NaN"
  by (cases x) (simp_all add: negate_def)

lemma to_double_not_NaN: "to_double q \<noteq> NaN"
  by (simp add: to_double_def Let_def negate_NaN_iff)

lemma trim_Nil_iff: "trim s = [] \<longleftrightarrow> blank s"
proof
  assume "trim s = []"
  then have "\<forall>c \<in> set (dropWhile is_whitespace s). is_whitespace c"
    by (simp add: trim_def dropWhile_eq_Nil_conv)
  then have "dropWhile is_whitespace s = []"
    using hd_dropWhile [of is_whitespace s] by (cases "dropWhile is_whitespace s") auto
  then show "blank s"
    by (simp add: blank_def dropWhile_eq_Nil_conv list_all_iff)
next
  assume "blank s"
  then have "dropWhile is_whitespace s = []"
    by (simp add: blank_def dropWhile_eq_Nil_conv list_all_iff)
  then show "trim s = []"
    by (metis trim_def dropWhile.simps(1) rev.simps(1))
qed

lemma digit_not_indicator: "is_digit c \<Longrightarrow> \<not> exponent_indicator c"
  by (auto simp: is_digit_def exponent_indicator_def)

lemma digit_not_point: "is_digit c \<Longrightarrow> c \<noteq> CHR ''.''"
  by (auto simp: is_digit_def)

lemma digit_not_sign: "is_digit c \<Longrightarrow> \<not> is_sign c"
  by (auto simp: is_digit_def is_sign_def)

lemma exponent_part_iff:
  "exponent_part s \<noteq> None \<longleftrightarrow>
     s = [] \<or> (exponent_indicator (hd s) \<and> signed_integer (tl s))"
proof (cases s)
  case Nil
  then show ?thesis by (simp add: exponent_part_def)
next
  case (Cons c r)
  show ?thesis
  proof (cases r)
    case Nil
    with Cons show ?thesis
      by (simp add: exponent_part_def signed_integer_def decimal_digits_def)
  next
    case (Cons d r')
    with \<open>s = c # r\<close> show ?thesis
      using digit_not_sign [of d]
      by (auto simp: exponent_part_def signed_integer_def decimal_digits_def
          exponent_indicator_def is_sign_def)
  qed
qed


lemma digits_ex_digit: "list_all is_digit xs \<Longrightarrow> list_ex is_digit xs \<longleftrightarrow> xs \<noteq> []"
  by (cases xs) (auto simp: list_ex_iff)

lemma mantissa_digits: "list_all is_digit ip \<Longrightarrow> mantissa ip \<longleftrightarrow> ip \<noteq> []"
proof -
  assume d: "list_all is_digit ip"
  then have "filter (\<lambda>c. c = CHR ''.'') ip = []"
    by (auto simp: filter_empty_conv list_all_iff dest: digit_not_point)
  moreover from d have "list_ex is_digit ip \<longleftrightarrow> ip \<noteq> []"
    by (rule digits_ex_digit)
  moreover from d have "list_all (\<lambda>c. is_digit c \<or> c = CHR ''.'') ip"
    by (simp add: list_all_iff)
  ultimately show ?thesis by (simp add: mantissa_def)
qed

lemma mantissa_point:
  assumes "list_all is_digit ip" and "list_all is_digit fp"
  shows "mantissa (ip @ CHR ''.'' # fp) \<longleftrightarrow> ip \<noteq> [] \<or> fp \<noteq> []"
proof -
  from assms have "filter (\<lambda>c. c = CHR ''.'') ip = []" "filter (\<lambda>c. c = CHR ''.'') fp = []"
    by (auto simp: filter_empty_conv list_all_iff dest: digit_not_point)
  moreover from assms have "list_ex is_digit ip \<longleftrightarrow> ip \<noteq> []" "list_ex is_digit fp \<longleftrightarrow> fp \<noteq> []"
    by (simp_all add: digits_ex_digit)
  moreover from assms have "list_all (\<lambda>c. is_digit c \<or> c = CHR ''.'') ip"
    "list_all (\<lambda>c. is_digit c \<or> c = CHR ''.'') fp"
    by (simp_all add: list_all_iff)
  moreover have "\<not> is_digit (CHR ''.'')" by (simp add: is_digit_def)
  ultimately show ?thesis by (simp add: mantissa_def)
qed

lemma not_mantissa_stray:
  assumes "\<not> is_digit c" and "c \<noteq> CHR ''.''"
  shows "\<not> mantissa (a @ c # b)"
  using assms by (simp add: mantissa_def)

lemma not_mantissa_two_points: "\<not> mantissa (a @ CHR ''.'' # b @ CHR ''.'' # c)"
  by (simp add: mantissa_def)

lemma point_not_indicator: "\<not> exponent_indicator (CHR ''.'')"
  by (simp add: exponent_indicator_def)

lemma exponent_part_Cons:
  "exponent_part (c # r) \<noteq> None \<longleftrightarrow> exponent_indicator c \<and> signed_integer r"
  using exponent_part_iff [of "c # r"] by (simp del: not_None_eq)

lemma unsigned_decimal_parts:
  "unsigned_decimal s \<noteq> None \<longleftrightarrow>
     (let r1 = dropWhile is_digit s;
          has_point = (r1 \<noteq> [] \<and> hd r1 = CHR ''.'');
          fp = (if has_point then takeWhile is_digit (tl r1) else []);
          r2 = (if has_point then dropWhile is_digit (tl r1) else r1)
      in (takeWhile is_digit s \<noteq> [] \<or> fp \<noteq> []) \<and> exponent_part r2 \<noteq> None)"
  by (simp add: unsigned_decimal_def Let_def del: not_None_eq split: option.splits)

lemma unsigned_decimal_iff:
  "unsigned_decimal s \<noteq> None \<longleftrightarrow>
     mantissa (takeWhile (\<lambda>c. \<not> exponent_indicator c) s)
     \<and> (dropWhile (\<lambda>c. \<not> exponent_indicator c) s = []
        \<or> signed_integer (tl (dropWhile (\<lambda>c. \<not> exponent_indicator c) s)))"
  (is "?parsed \<longleftrightarrow> ?literal s")
proof -
  define ip where "ip = takeWhile is_digit s"
  define r1 where "r1 = dropWhile is_digit s"
  have s: "s = ip @ r1" by (simp add: ip_def r1_def)
  have ip: "list_all is_digit ip"
    by (simp add: ip_def list_all_iff) (meson set_takeWhileD)
  have ip_ne: "\<forall>c \<in> set ip. \<not> exponent_indicator c"
    using ip by (simp add: list_all_iff digit_not_indicator)
  have r1_head: "r1 \<noteq> [] \<Longrightarrow> \<not> is_digit (hd r1)"
    unfolding r1_def by (rule hd_dropWhile)
  show ?thesis
  proof (cases r1)
    case Nil
    then have "?parsed \<longleftrightarrow> ip \<noteq> []"
      by (simp add: unsigned_decimal_parts ip_def [symmetric] r1_def [symmetric] exponent_part_def
          del: not_None_eq)
    moreover from Nil s ip_ne have "?literal s \<longleftrightarrow> mantissa ip"
      by (simp add: takeWhile_eq_all_conv [THEN iffD2] dropWhile_eq_Nil_conv)
    ultimately show ?thesis using mantissa_digits [OF ip] by simp
  next
    case (Cons c r')
    with r1_head have c: "\<not> is_digit c" by simp
    show ?thesis
    proof (cases "c = CHR ''.''")
      case False
      with Cons have parsed: "?parsed \<longleftrightarrow> ip \<noteq> [] \<and> exponent_indicator c \<and> signed_integer r'"
        by (simp add: unsigned_decimal_parts ip_def [symmetric] r1_def [symmetric]
            exponent_part_Cons del: not_None_eq)
      show ?thesis
      proof (cases "exponent_indicator c")
        case True
        with Cons s ip_ne have "?literal s \<longleftrightarrow> mantissa ip \<and> signed_integer r'"
          by (simp add: takeWhile_append2 dropWhile_append2)
        with parsed True mantissa_digits [OF ip] show ?thesis by simp
      next
        case no_exp: False
        with Cons s ip_ne
        have "takeWhile (\<lambda>c. \<not> exponent_indicator c) s =
            ip @ c # takeWhile (\<lambda>c. \<not> exponent_indicator c) r'"
          by (simp add: takeWhile_append2)
        then have "\<not> mantissa (takeWhile (\<lambda>c. \<not> exponent_indicator c) s)"
          using not_mantissa_stray [OF c False] by simp
        with parsed no_exp show ?thesis by simp
      qed
    next
      case True
      define fp where "fp = takeWhile is_digit r'"
      define r2 where "r2 = dropWhile is_digit r'"
      have r': "r' = fp @ r2" by (simp add: fp_def r2_def)
      have fp: "list_all is_digit fp"
        by (simp add: fp_def list_all_iff) (meson set_takeWhileD)
      have r2_head: "r2 \<noteq> [] \<Longrightarrow> \<not> is_digit (hd r2)"
        unfolding r2_def by (rule hd_dropWhile)
      from True Cons have parsed: "?parsed \<longleftrightarrow> (ip \<noteq> [] \<or> fp \<noteq> []) \<and> exponent_part r2 \<noteq> None"
        by (simp add: unsigned_decimal_parts ip_def [symmetric] r1_def [symmetric]
            fp_def [symmetric] r2_def [symmetric] del: not_None_eq)
      have whole: "s = ip @ CHR ''.'' # fp @ r2"
        using s Cons True r' by simp
      have fp_ne: "\<forall>c \<in> set fp. \<not> exponent_indicator c"
        using fp by (simp add: list_all_iff digit_not_indicator)
      note front = ip_ne fp_ne point_not_indicator
      show ?thesis
      proof (cases r2)
        case Nil
        with whole front have "?literal s \<longleftrightarrow> mantissa (ip @ CHR ''.'' # fp)"
          by (simp add: takeWhile_eq_all_conv [THEN iffD2] dropWhile_eq_Nil_conv)
        with parsed Nil mantissa_point [OF ip fp] show ?thesis
          by (simp add: exponent_part_def del: not_None_eq)
      next
        case (Cons d r'')
        with r2_head have d: "\<not> is_digit d" by simp
        from Cons parsed have parsed':
          "?parsed \<longleftrightarrow> (ip \<noteq> [] \<or> fp \<noteq> []) \<and> exponent_indicator d \<and> signed_integer r''"
          by (simp add: exponent_part_Cons del: not_None_eq)
        show ?thesis
        proof (cases "exponent_indicator d")
          case True
          with Cons whole front
          have "?literal s \<longleftrightarrow> mantissa (ip @ CHR ''.'' # fp) \<and> signed_integer r''"
            by simp
          with parsed' True mantissa_point [OF ip fp] show ?thesis by simp
        next
          case False
          with Cons whole front
          have taken: "takeWhile (\<lambda>c. \<not> exponent_indicator c) s =
              ip @ CHR ''.'' # fp @ d # takeWhile (\<lambda>c. \<not> exponent_indicator c) r''"
            by simp
          have "\<not> mantissa (takeWhile (\<lambda>c. \<not> exponent_indicator c) s)"
          proof (cases "d = CHR ''.''")
            case True
            with taken show ?thesis
              using not_mantissa_two_points [of ip fp] by simp
          next
            case False
            with taken d show ?thesis
              using not_mantissa_stray [of d "ip @ CHR ''.'' # fp"] by simp
          qed
          with parsed' False show ?thesis by simp
        qed
      qed
    qed
  qed
qed

lemma unsigned_literal_iff:
  "str_unsigned_decimal_literal s \<longleftrightarrow> s = ''Infinity'' \<or> unsigned_decimal s \<noteq> None"
  by (simp only: str_unsigned_decimal_literal_def unsigned_decimal_iff)

lemma not_literal_stray:
  assumes "\<not> is_digit c" and "c \<noteq> CHR ''.''" and "\<not> exponent_indicator c"
    and "\<forall>x \<in> set a. is_digit x" and "a @ c # r \<noteq> ''Infinity''"
  shows "\<not> str_unsigned_decimal_literal (a @ c # r)"
proof -
  from assms(4) have "\<forall>x \<in> set a. \<not> exponent_indicator x"
    by (simp add: digit_not_indicator)
  with assms(3)
  have "takeWhile (\<lambda>c. \<not> exponent_indicator c) (a @ c # r) =
      a @ c # takeWhile (\<lambda>c. \<not> exponent_indicator c) r"
    by simp
  then have "\<not> mantissa (takeWhile (\<lambda>c. \<not> exponent_indicator c) (a @ c # r))"
    using not_mantissa_stray [OF assms(1,2)] by simp
  with assms(5) show ?thesis
    by (simp add: str_unsigned_decimal_literal_def)
qed

lemma not_literal_sign: "is_sign c \<Longrightarrow> \<not> str_unsigned_decimal_literal (c # r)"
  using not_literal_stray [of c "[]" r]
  by (auto simp: is_sign_def is_digit_def exponent_indicator_def)

lemma not_literal_Nil: "\<not> str_unsigned_decimal_literal []"
  by (simp add: str_unsigned_decimal_literal_def mantissa_def)

lemma str_decimal_literal_NaN_iff:
  "str_decimal_literal s = NaN \<longleftrightarrow>
     \<not> (str_unsigned_decimal_literal s
        \<or> (s \<noteq> [] \<and> is_sign (hd s) \<and> str_unsigned_decimal_literal (tl s)))"
proof (cases s)
  case Nil
  then show ?thesis
    by (simp add: str_decimal_literal_def not_literal_Nil)
next
  case (Cons c r)
  show ?thesis
  proof (cases "is_sign c")
    case True
    then have "str_decimal_literal (c # r) = NaN \<longleftrightarrow> \<not> str_unsigned_decimal_literal r"
      by (auto simp: str_decimal_literal_def is_sign_def unsigned_literal_iff to_double_not_NaN
          negate_NaN_iff split: option.splits)
    with True Cons show ?thesis
      by (simp add: not_literal_sign)
  next
    case False
    then have "str_decimal_literal (c # r) = NaN \<longleftrightarrow> \<not> str_unsigned_decimal_literal (c # r)"
      by (auto simp: str_decimal_literal_def is_sign_def unsigned_literal_iff to_double_not_NaN
          split: option.splits)
    with False Cons show ?thesis by simp
  qed
qed

lemma prefixed_digits_Cons:
  "prefixed_digits marks digit (z # p # ds) \<longleftrightarrow>
     z = CHR ''0'' \<and> p \<in> set marks \<and> ds \<noteq> [] \<and> list_all digit ds"
  by (auto simp: prefixed_digits_def)

lemma prefixed_digits_short: "length s < 2 \<Longrightarrow> \<not> prefixed_digits marks digit s"
  by (simp add: prefixed_digits_def)

lemma non_decimal_literal_None:
  assumes "non_decimal_literal s = None"
  shows "\<not> prefixed_digits ''xX'' is_hex_digit s"
    and "\<not> prefixed_digits ''oO'' is_octal_digit s"
    and "\<not> prefixed_digits ''bB'' is_binary_digit s"
  using assms
  by (auto simp: non_decimal_literal_def prefixed_digits_def neq_Nil_conv
      split: list.splits if_splits)

lemma non_decimal_literal_Some:
  assumes "non_decimal_literal s = Some v"
  shows "v = NaN \<longleftrightarrow>
      \<not> (prefixed_digits ''xX'' is_hex_digit s \<or> prefixed_digits ''oO'' is_octal_digit s
         \<or> prefixed_digits ''bB'' is_binary_digit s)"
    and "\<not> str_unsigned_decimal_literal s"
    and "s \<noteq> [] \<and> \<not> is_sign (hd s)"
proof -
  from assms obtain p ds where s: "s = CHR ''0'' # p # ds"
    and p: "p \<in> set ''xXoObB''"
    by (auto simp: non_decimal_literal_def split: list.splits if_splits)
  from assms s show "v = NaN \<longleftrightarrow>
      \<not> (prefixed_digits ''xX'' is_hex_digit s \<or> prefixed_digits ''oO'' is_octal_digit s
         \<or> prefixed_digits ''bB'' is_binary_digit s)"
    by (auto simp: non_decimal_literal_def prefixed_digits_Cons to_double_not_NaN
        split: if_splits)
  from p have "\<not> is_digit p" "p \<noteq> CHR ''.''" "\<not> exponent_indicator p"
    by (auto simp: is_digit_def exponent_indicator_def)
  moreover have "\<forall>x \<in> set [CHR ''0'']. is_digit x"
    by (simp add: is_digit_def)
  moreover have "[CHR ''0''] @ p # ds \<noteq> ''Infinity''"
    by simp
  ultimately have "\<not> str_unsigned_decimal_literal ([CHR ''0''] @ p # ds)"
    by (rule not_literal_stray)
  with s show "\<not> str_unsigned_decimal_literal s" by simp
  from s show "s \<noteq> [] \<and> \<not> is_sign (hd s)"
    by (simp add: is_sign_def)
qed

lemma Number_NaN_iff: "Number s = NaN \<longleftrightarrow> \<not> blank s \<and> \<not> str_numeric_literal (trim s)"
proof (cases "trim s = []")
  case True
  then show ?thesis
    by (simp add: Number_def trim_Nil_iff [symmetric])
next
  case False
  then have not_blank: "\<not> blank s" by (simp add: trim_Nil_iff)
  show ?thesis
  proof (cases "non_decimal_literal (trim s)")
    case None
    with False have "Number s = str_decimal_literal (trim s)"
      by (simp add: Number_def)
    with not_blank non_decimal_literal_None [OF None] show ?thesis
      by (simp add: str_decimal_literal_NaN_iff str_numeric_literal_def)
  next
    case (Some v)
    with False have "Number s = v"
      by (simp add: Number_def)
    with not_blank non_decimal_literal_Some [OF Some] show ?thesis
      by (simp add: str_numeric_literal_def)
  qed
qed

lemma Number_blank: "blank s \<Longrightarrow> Number s = Finite 0"
  by (simp add: Number_def trim_Nil_iff)

text \<open>
  C5. The claim is that a field that is not a numeric string gives the offset NaN. An empty
  field is not a numeric string, but \<open>Number('')\<close> is \<open>0\<close>: the token \<open>5-\<close> gives the end
  offset \<open>0\<close>.
\<close>

theorem empty_field_counterexample:
  "split (CHR ''-'') ''5-'' = [''5'', []]
   \<and> forEach_position ''25'' [''5-''] [] =
       [\<lparr>span_id = ''25'', span_start = JSNumber (Finite 5), span_end = JSNumber (Finite 0)\<rparr>]"
  by code_simp

text \<open>
  C5, as the code behaves: extraction never fails and pushes one span for the token. The
  offset read from the start or the end field is NaN exactly when the field is not blank
  and, without the white space around it, is not a numeric literal; a blank field gives
  the offset \<open>0\<close>; and when the token has no hyphen the end offset is \<open>undefined\<close>.
\<close>

theorem position_token_offsets:
  "forEach_position emoteId [position] acc = acc @ [position_span emoteId position]
   \<and> (\<forall>i < length (split (CHR ''-'') position). i < 2 \<longrightarrow>
        ((if i = 0 then span_start (position_span emoteId position)
          else span_end (position_span emoteId position)) = JSNumber NaN
         \<longleftrightarrow> \<not> blank (split (CHR ''-'') position ! i)
             \<and> \<not> str_numeric_literal (trim (split (CHR ''-'') position ! i)))
        \<and> (blank (split (CHR ''-'') position ! i) \<longrightarrow>
             (if i = 0 then span_start (position_span emoteId position)
              else span_end (position_span emoteId position)) = JSNumber (Finite 0)))
   \<and> (length (split (CHR ''-'') position) < 2 \<longrightarrow>
        span_end (position_span emoteId position) = Undefined)"
proof -
  let ?fields = "split (CHR ''-'') position"
  let ?sp = "position_span emoteId position"
  have offset: "(if i = 0 then span_start ?sp else span_end ?sp) = JSNumber (Number (?fields ! i))"
    if "i < length ?fields" "i < 2" for i
  proof -
    from that(2) have "i = 0 \<or> i = 1" by auto
    with that(1) show ?thesis
      by (auto simp: position_span_def element_def Let_def)
  qed
  have pushed: "forEach_position emoteId [position] acc = acc @ [?sp]"
    by simp
  have fields: "\<forall>i < length ?fields. i < 2 \<longrightarrow>
        ((if i = 0 then span_start ?sp else span_end ?sp) = JSNumber NaN
         \<longleftrightarrow> \<not> blank (?fields ! i) \<and> \<not> str_numeric_literal (trim (?fields ! i)))
        \<and> (blank (?fields ! i) \<longrightarrow>
             (if i = 0 then span_start ?sp else span_end ?sp) = JSNumber (Finite 0))"
  proof (intro allI impI)
    fix i
    assume "i < length ?fields" and "i < 2"
    then have "(if i = 0 then span_start ?sp else span_end ?sp) = JSNumber (Number (?fields ! i))"
      by (rule offset)
    then show "((if i = 0 then span_start ?sp else span_end ?sp) = JSNumber NaN
         \<longleftrightarrow> \<not> blank (?fields ! i) \<and> \<not> str_numeric_literal (trim (?fields ! i)))
        \<and> (blank (?fields ! i) \<longrightarrow>
             (if i = 0 then span_start ?sp else span_end ?sp) = JSNumber (Finite 0))"
      by (simp add: Number_NaN_iff Number_blank)
  qed
  have missing: "length ?fields < 2 \<longrightarrow> span_end ?sp = Undefined"
    by (simp add: position_span_def element_def Let_def)
  from pushed fields missing show ?thesis by blast
qed

theorem position_token_offsets_witness:
  "split (CHR ''-'') ''abc-'' = [''abc'', []]
   \<and> \<not> blank ''abc'' \<and> \<not> str_numeric_literal (trim ''abc'') \<and> blank []
   \<and> forEach_position ''25'' [''abc-''] [] = [] @ [position_span ''25'' ''abc-'']
   \<and> span_start (position_span ''25'' ''abc-'') = JSNumber NaN
   \<and> span_end (position_span ''25'' ''abc-'') = JSNumber (Finite 0)
   \<and> length (split (CHR ''-'') ''7'') < 2
   \<and> span_end (position_span ''25'' ''7'') = Undefined"
proof -
  have fields: "split (CHR ''-'') ''abc-'' = [''abc'', []]"
    by code_simp
  have malformed: "\<not> blank ''abc''" "\<not> str_numeric_literal (trim ''abc'')"
    by code_simp+
  have empty: "blank []"
    by (simp add: blank_def)
  have short: "length (split (CHR ''-'') ''7'') < 2"
    by code_simp
  note two = position_token_offsets [of "''25''" "''abc-''" "[]"]
  note one = position_token_offsets [of "''25''" "''7''" "[]"]
  from two have pushed: "forEach_position ''25'' [''abc-''] [] = [] @ [position_span ''25'' ''abc-'']"
    by blast
  from two have each: "i < length (split (CHR ''-'') ''abc-'') \<Longrightarrow> i < 2 \<Longrightarrow>
        ((if i = 0 then span_start (position_span ''25'' ''abc-'')
          else span_end (position_span ''25'' ''abc-'')) = JSNumber NaN
         \<longleftrightarrow> \<not> blank (split (CHR ''-'') ''abc-'' ! i)
             \<and> \<not> str_numeric_literal (trim (split (CHR ''-'') ''abc-'' ! i)))
        \<and> (blank (split (CHR ''-'') ''abc-'' ! i) \<longrightarrow>
             (if i = 0 then span_start (position_span ''25'' ''abc-'')
              else span_end (position_span ''25'' ''abc-'')) = JSNumber (Finite 0))" for i
    by blast
  from each [of 0] malformed have start: "span_start (position_span ''25'' ''abc-'') = JSNumber NaN"
    by (simp add: fields)
  from each [of 1] empty have end_offset: "span_end (position_span ''25'' ''abc-'') = JSNumber (Finite 0)"
    by (simp add: fields)
  from one short have no_end: "span_end (position_span ''25'' ''7'') = Undefined"
    by blast
  from fields malformed empty pushed start end_offset short no_end show ?thesis
    by blast
qed

end
